theory Spec2Isabelle
  imports Complex_Main
begin

section \<open>Data model (src/indel.tsx, lines 10-58)\<close>

text \<open>
  The interfaces of the source become records. A field name that several interfaces
  share (\<open>id\<close>, \<open>userId\<close>, \<open>status\<close>, \<open>name\<close>), and \<open>identifier\<close>, which is a
  keyword of Isabelle, carries the initial of its interface:
  \<open>uId\<close> is \<open>User.id\<close>, \<open>dUserId\<close> is \<open>Distribution.userId\<close>, and so on.

  A JavaScript \<open>number\<close> is modelled as an exact rational: the arithmetic of the
  source (\<open>+\<close>, \<open>-\<close>, \<open>*\<close>, \<open>/\<close>, \<open>Math.max\<close>, \<open><\<close>) is read without rounding,
  overflow or NaN. A timestamp (\<open>new Date().toISOString()\<close>, \<open>Date.now()\<close>) is the
  number of milliseconds it stands for.
\<close>

datatype Role = role_admin | role_user

datatype Platform = youtube | tiktok

datatype DistStatus = success | failed

datatype WithdrawalStatus = pending | completed

record User =
  uId :: string
  username :: string
  password :: "string option"
  role :: Role
  ratio :: rat
  createdAt :: nat

record Channel =
  cId :: string
  cUserId :: string
  platform :: Platform
  cIdentifier :: string
  cName :: string

record Song =
  sId :: string
  title :: string
  description :: string
  tags :: "string list"
  uploadDate :: nat
  fileSize :: string

record Distribution =
  dId :: string
  songId :: string
  dUserId :: string
  distributedAt :: nat
  dStatus :: DistStatus
  views :: rat

record Withdrawal =
  wId :: string
  wUserId :: string
  amount :: rat
  date :: nat
  wStatus :: WithdrawalStatus

record AppSettings =
  globalPricePer1k :: rat
  platformFee :: rat

text \<open>
  The store behind \<open>DataManager\<close> (lines 74-121): one value per key, each read by
  \<open>db.getX()\<close> and replaced as a whole by \<open>db.setX(v)\<close>.
\<close>

record DB =
  users :: "User list"
  channels :: "Channel list"
  songs :: "Song list"
  distributions :: "Distribution list"
  withdrawals :: "Withdrawal list"
  settings :: AppSettings

section \<open>Attribution (SubDashboard, AdminRevenue, SubMusic, AdminUsers, AdminDashboard)\<close>

text \<open>\<open>SubDashboard\<close>, lines 767-777: the values computed when the component renders.\<close>

definition SubDashboard_dists :: "User \<Rightarrow> DB \<Rightarrow> Distribution list" where
  "SubDashboard_dists u db = filter (\<lambda>d. dUserId d = uId u) (distributions db)"

definition SubDashboard_totalViews :: "User \<Rightarrow> DB \<Rightarrow> rat" where
  "SubDashboard_totalViews u db = foldl (\<lambda>acc d. acc + views d) 0 (SubDashboard_dists u db)"

definition SubDashboard_revenue :: "User \<Rightarrow> DB \<Rightarrow> rat" where
  "SubDashboard_revenue u db =
     (SubDashboard_totalViews u db / 1000) * globalPricePer1k (settings db) * (ratio u / 100)"

definition SubDashboard_withdrawals :: "User \<Rightarrow> DB \<Rightarrow> Withdrawal list" where
  "SubDashboard_withdrawals u db = filter (\<lambda>w. wUserId w = uId u) (withdrawals db)"

definition SubDashboard_withdrawn :: "User \<Rightarrow> DB \<Rightarrow> rat" where
  "SubDashboard_withdrawn u db = foldl (\<lambda>acc w. acc + amount w) 0 (SubDashboard_withdrawals u db)"

definition SubDashboard_balance :: "User \<Rightarrow> DB \<Rightarrow> rat" where
  "SubDashboard_balance u db = max 0 (SubDashboard_revenue u db - SubDashboard_withdrawn u db)"

text \<open>Per-distribution revenue: \<open>earn\<close> (line 826) and \<open>SubMusic\<close>'s \<open>revenue\<close> (line 928).\<close>

definition SubMusic_revenue :: "User \<Rightarrow> DB \<Rightarrow> Distribution \<Rightarrow> rat" where
  "SubMusic_revenue u db d = (views d / 1000) * globalPricePer1k (settings db) * (ratio u / 100)"

text \<open>\<open>AdminRevenue\<close>, lines 665-667 and 707-711: one row per user that is not an admin.\<close>

definition AdminRevenue_users :: "DB \<Rightarrow> User list" where
  "AdminRevenue_users db = filter (\<lambda>u. role u \<noteq> role_admin) (users db)"

definition AdminRevenue_views :: "User \<Rightarrow> DB \<Rightarrow> rat" where
  "AdminRevenue_views u db =
     foldl (\<lambda>acc d. acc + views d) 0 (filter (\<lambda>d. dUserId d = uId u) (distributions db))"

definition AdminRevenue_gross :: "User \<Rightarrow> DB \<Rightarrow> rat" where
  "AdminRevenue_gross u db = (AdminRevenue_views u db / 1000) * globalPricePer1k (settings db)"

definition AdminRevenue_net :: "User \<Rightarrow> DB \<Rightarrow> rat" where
  "AdminRevenue_net u db = AdminRevenue_gross u db * (ratio u / 100)"

definition AdminRevenue_rows :: "DB \<Rightarrow> (string \<times> rat \<times> rat \<times> rat) list" where
  "AdminRevenue_rows db =
     map (\<lambda>u. (username u, AdminRevenue_views u db, AdminRevenue_gross u db, AdminRevenue_net u db))
       (AdminRevenue_users db)"

text \<open>
  \<open>exportExcel\<close>, lines 669-677: the rows of the report under the header
  \<open>User,Ratio,Total Views,Gross Revenue,Platform Fee,Net Revenue\<close>, as the six values of
  each row before they are printed (\<open>toFixed(4)\<close>, the \<open>%\<close> signs).
\<close>

definition exportExcel :: "DB \<Rightarrow> (string \<times> rat \<times> rat \<times> rat \<times> rat \<times> rat) list" where
  "exportExcel db =
     map (\<lambda>u. (username u, ratio u, AdminRevenue_views u db, AdminRevenue_gross u db,
                platformFee (settings db), AdminRevenue_net u db))
       (AdminRevenue_users db)"

text \<open>\<open>AdminUsers\<close>, lines 516-518: the estimated revenue of a row of the user table.\<close>

definition AdminUsers_revenue :: "User \<Rightarrow> DB \<Rightarrow> rat" where
  "AdminUsers_revenue u db =
     (foldl (\<lambda>acc d. acc + views d) 0 (filter (\<lambda>d. dUserId d = uId u) (distributions db)) / 1000)
       * globalPricePer1k (settings db) * (ratio u / 100)"

text \<open>\<open>AdminDashboard\<close>, lines 323-328: views and revenue over every distribution.\<close>

definition AdminDashboard_totalViews :: "DB \<Rightarrow> rat" where
  "AdminDashboard_totalViews db = foldl (\<lambda>acc d. acc + views d) 0 (distributions db)"

definition AdminDashboard_totalRevenue :: "DB \<Rightarrow> rat" where
  "AdminDashboard_totalRevenue db =
     (AdminDashboard_totalViews db / 1000) * globalPricePer1k (settings db)"

section \<open>Withdrawals (SubDashboard.handleWithdraw, SubEarnings)\<close>

datatype WithdrawError = InsufficientBalance

text \<open>
  \<open>handleWithdraw\<close>, lines 779-791. The handler is a closure of the render that created
  it: \<open>balance\<close> is the value that render computed, while \<open>db.getWithdrawals()\<close> reads
  the store when the handler runs. The store can change in between: the traffic timer
  (lines 993-1001) rewrites the views every five seconds without a new render, and a
  second dashboard can be open on the same store. \<open>now\<close> is \<open>Date.now()\<close> when the
  handler runs; the identifier
  \<open>w_<now>\<close> is kept as the prefix and the clock value printed by \<open>decimal\<close>.
  The early return after \<open>alert('Minimum withdrawal is $10')\<close> is the error
  \<open>InsufficientBalance\<close>; the store is returned with the outcome.
\<close>

fun decimal :: "nat \<Rightarrow> string" where
  "decimal n =
     (if n < 10 then [char_of (48 + n)] else decimal (n div 10) @ [char_of (48 + n mod 10)])"

definition handleWithdraw ::
  "nat \<Rightarrow> User \<Rightarrow> rat \<Rightarrow> DB \<Rightarrow> DB \<times> (WithdrawError + Withdrawal)" where
  "handleWithdraw now u balance db =
     (if balance < 10 then (db, Inl InsufficientBalance)
      else
        let w = \<lparr> wId = ''w_'' @ decimal now, wUserId = uId u, amount = balance,
                  date = now, wStatus = pending \<rparr>
        in (db \<lparr> withdrawals := withdrawals db @ [w] \<rparr>, Inr w))"

text \<open>\<open>SubEarnings\<close>, lines 949 and 967: the withdrawals listed, in the order rendered.\<close>

definition SubEarnings :: "User \<Rightarrow> DB \<Rightarrow> Withdrawal list" where
  "SubEarnings u db = filter (\<lambda>w. wUserId w = uId u) (withdrawals db)"

section \<open>Rate configuration (AdminSettings, lines 728-736 and 750)\<close>

text \<open>
  The form holds a copy of the settings; editing the RPM field replaces
  \<open>globalPricePer1k\<close> in the copy, and \<open>save\<close> writes the copy to the store.
\<close>

definition AdminSettings_onChange :: "rat \<Rightarrow> AppSettings \<Rightarrow> AppSettings" where
  "AdminSettings_onChange v s = s \<lparr> globalPricePer1k := v \<rparr>"

definition save :: "AppSettings \<Rightarrow> DB \<Rightarrow> DB" where
  "save s db = db \<lparr> settings := s \<rparr>"

section \<open>Batch import (AdminUsers.processCSV, lines 408-460)\<close>

subsection \<open>The string operations of the source\<close>

text \<open>
  A JavaScript string is modelled as a list of 8-bit characters, that is, a string over
  the code points below 256. \<open>trim\<close> removes the white space and line terminators of
  that range at both ends; \<open>toLowerCase\<close> maps A-Z and the capital letters of Latin-1
  to their small letters; \<open>split_str\<close> is \<open>String.prototype.split\<close> with a separator
  of one character (it returns one piece more than there are separators, so never the
  empty list, and the first branch of its \<open>case\<close> is never taken); \<open>includes_str\<close> is
  \<open>String.prototype.includes\<close> and \<open>startsWith\<close> is \<open>String.prototype.startsWith\<close>.
\<close>

definition isWhiteSpace :: "char \<Rightarrow> bool" where
  "isWhiteSpace c =
     (c \<in> set [CHR 0x09, CHR 0x0A, CHR 0x0B, CHR 0x0C, CHR 0x0D, CHR 0x20, CHR 0xA0])"

definition trim :: "string \<Rightarrow> string" where
  "trim s = rev (dropWhile isWhiteSpace (rev (dropWhile isWhiteSpace s)))"

fun split_str :: "char \<Rightarrow> string \<Rightarrow> string list" where
  "split_str sep [] = [[]]"
| "split_str sep (c # cs) =
     (if c = sep then [] # split_str sep cs
      else (case split_str sep cs of [] \<Rightarrow> [[c]] | p # ps \<Rightarrow> (c # p) # ps))"

definition toLowerChar :: "char \<Rightarrow> char" where
  "toLowerChar c =
     (let n = (of_char c :: nat)
      in if (65 \<le> n \<and> n \<le> 90) \<or> (192 \<le> n \<and> n \<le> 222 \<and> n \<noteq> 215)
         then char_of (n + 32) else c)"

definition toLowerCase :: "string \<Rightarrow> string" where
  "toLowerCase s = map toLowerChar s"

definition startsWith :: "string \<Rightarrow> string \<Rightarrow> bool" where
  "startsWith s p = (take (length p) s = p)"

fun includes_str :: "string \<Rightarrow> string \<Rightarrow> bool" where
  "includes_str [] p = (p = [])"
| "includes_str (c # cs) p = (startsWith (c # cs) p \<or> includes_str cs p)"

subsection \<open>What the import takes from its environment\<close>

text \<open>
  The values that the loop draws from the clock, the random generator and the number
  parser while it handles the line of index \<open>i\<close>: the identifier
  \<open>u_<Date.now()>_<random>\<close> of a new user, the identifier \<open>c_<Date.now()>_<random>\<close> of
  the new channel, the time \<open>new Date()\<close> of a new user, and \<open>parseFloat\<close>. As numbers
  are rationals here, \<open>parseFloat\<close> gives some number for every text; no property below
  depends on which.
\<close>

record Runtime =
  freshUserId :: "nat \<Rightarrow> string"
  freshChannelId :: "nat \<Rightarrow> string"
  clock :: "nat \<Rightarrow> nat"
  parseFloat :: "string \<Rightarrow> rat"

subsection \<open>processCSV\<close>

datatype ImportError = MalformedRow nat

text \<open>
  \<open>MalformedRow n\<close> is the exception \<open>new Error(`Line ${i+1} invalid format`)\<close> with
  \<open>n = i + 1\<close>; a successful import reports \<open>newUsers.length\<close> and
  \<open>newChannels.length\<close>. \<open>importMessage\<close> is the text shown for either.
\<close>

definition importMessage :: "ImportError + nat \<times> nat \<Rightarrow> string" where
  "importMessage r =
     (case r of
        Inl (MalformedRow n) \<Rightarrow> ''Line '' @ decimal n @ '' invalid format''
      | Inr (nu, nc) \<Rightarrow>
          ''Successfully imported '' @ decimal nu @ '' users & '' @ decimal nc @ '' channels'')"

text \<open>
  Line 411: whether the first line is taken for a header. \<open>lines[0]\<close> exists, a split
  never being empty.
\<close>

definition startIdx :: "string list \<Rightarrow> nat" where
  "startIdx lines = (if includes_str (toLowerCase (hd lines)) ''username'' then 1 else 0)"

text \<open>Line 428: the user of a row, among the stored users first, then among the new ones.\<close>

definition findUser :: "string \<Rightarrow> User list \<Rightarrow> User list \<Rightarrow> User option" where
  "findUser name currentUsers newUsers =
     (case find (\<lambda>u. username u = name) currentUsers of
        Some u \<Rightarrow> Some u
      | None \<Rightarrow> find (\<lambda>u. username u = name) newUsers)"

text \<open>Lines 431-438 and 442-448, for the trimmed cells of the line of index \<open>i\<close>.\<close>

definition createUser :: "Runtime \<Rightarrow> nat \<Rightarrow> string list \<Rightarrow> User" where
  "createUser rt i cells =
     \<lparr> uId = freshUserId rt i, username = cells ! 0, password = Some (cells ! 1),
       role = role_user, ratio = parseFloat rt (cells ! 2), createdAt = clock rt i \<rparr>"

definition createChannel :: "Runtime \<Rightarrow> nat \<Rightarrow> User \<Rightarrow> string list \<Rightarrow> Channel" where
  "createChannel rt i u cells =
     \<lparr> cId = freshChannelId rt i, cUserId = uId u,
       platform = (if startsWith (cells ! 4) ''UC'' then youtube else tiktok),
       cIdentifier = cells ! 4, cName = cells ! 3 \<rparr>"

text \<open>Lines 425-448: one well-formed row, given and returning \<open>newUsers\<close> and \<open>newChannels\<close>.\<close>

definition processRow ::
  "Runtime \<Rightarrow> User list \<Rightarrow> nat \<Rightarrow> string list \<Rightarrow> User list \<times> Channel list
     \<Rightarrow> User list \<times> Channel list" where
  "processRow rt currentUsers i parts acc =
     (let cells = map trim parts
      in case findUser (cells ! 0) currentUsers (fst acc) of
           Some u \<Rightarrow> (fst acc, snd acc @ [createChannel rt i u cells])
         | None \<Rightarrow>
             (fst acc @ [createUser rt i cells],
              snd acc @ [createChannel rt i (createUser rt i cells) cells]))"

text \<open>
  Lines 417-449: the loop, at index \<open>i\<close> with the lines from \<open>i\<close> on still to read. A
  blank line is passed over; a line of fewer than five parts throws.
\<close>

fun processCSV_loop ::
  "Runtime \<Rightarrow> User list \<Rightarrow> nat \<Rightarrow> string list \<Rightarrow> User list \<times> Channel list
     \<Rightarrow> ImportError + User list \<times> Channel list" where
  "processCSV_loop rt currentUsers i [] acc = Inr acc"
| "processCSV_loop rt currentUsers i (l # ls) acc =
     (if trim l = [] then processCSV_loop rt currentUsers (i + 1) ls acc
      else if length (split_str (CHR '','') (trim l)) < 5 then Inl (MalformedRow (i + 1))
      else processCSV_loop rt currentUsers (i + 1) ls
             (processRow rt currentUsers i (split_str (CHR '','') (trim l)) acc))"

text \<open>
  Lines 411-458 for the lines of the payload: the loop from \<open>startIdx\<close>, then either the
  two writes to the store and the counts, or the error caught, the store untouched.
\<close>

definition importLines :: "Runtime \<Rightarrow> string list \<Rightarrow> DB \<Rightarrow> DB \<times> (ImportError + nat \<times> nat)" where
  "importLines rt lines db =
     (case processCSV_loop rt (users db) (startIdx lines) (drop (startIdx lines) lines) ([], []) of
        Inl e \<Rightarrow> (db, Inl e)
      | Inr (newUsers, newChannels) \<Rightarrow>
          (db \<lparr> users := users db @ newUsers, channels := channels db @ newChannels \<rparr>,
           Inr (length newUsers, length newChannels)))"

text \<open>Line 410 and the rest: the payload is trimmed and cut into lines.\<close>

definition payloadLines :: "string \<Rightarrow> string list" where
  "payloadLines csvContent = split_str (CHR 0x0A) (trim csvContent)"

definition processCSV :: "Runtime \<Rightarrow> string \<Rightarrow> DB \<Rightarrow> DB \<times> (ImportError + nat \<times> nat)" where
  "processCSV rt csvContent db = importLines rt (payloadLines csvContent) db"

text \<open>
  The rows the loop reads as data: the lines from \<open>startIdx\<close> on that are not blank,
  trimmed. A row is malformed when it has fewer than five comma-separated parts; its
  first part, trimmed, names its user.
\<close>

definition dataRows :: "string list \<Rightarrow> string list" where
  "dataRows lines = filter (\<lambda>l. l \<noteq> []) (map trim (drop (startIdx lines) lines))"

definition malformed :: "string \<Rightarrow> bool" where
  "malformed row = (length (split_str (CHR '','') row) < 5)"

definition rowName :: "string \<Rightarrow> string" where
  "rowName row = trim (split_str (CHR '','') row ! 0)"

section \<open>Example stores\<close>

text \<open>
  \<open>DEFAULT_USERS\<close> and \<open>DEFAULT_SETTINGS\<close>, lines 63-72, created at time 0, and the store
  of a first start, where every key is absent and \<open>DataManager.get\<close> returns its default.
\<close>

definition u_admin :: User where
  "u_admin = \<lparr> uId = ''u_admin'', username = ''admin'', password = Some ''123456'',
               role = role_admin, ratio = 0, createdAt = 0 \<rparr>"

definition u_test1 :: User where
  "u_test1 = \<lparr> uId = ''u_test1'', username = ''test1'', password = Some ''123456'',
               role = role_user, ratio = 75, createdAt = 0 \<rparr>"

definition u_test2 :: User where
  "u_test2 = \<lparr> uId = ''u_test2'', username = ''test2'', password = Some ''123456'',
               role = role_user, ratio = 80, createdAt = 0 \<rparr>"

definition DEFAULT_USERS :: "User list" where
  "DEFAULT_USERS = [u_admin, u_test1, u_test2]"

definition DEFAULT_SETTINGS :: AppSettings where
  "DEFAULT_SETTINGS = \<lparr> globalPricePer1k = 3 / 100, platformFee = 0 \<rparr>"

definition initialDB :: DB where
  "initialDB = \<lparr> users = DEFAULT_USERS, channels = [], songs = [], distributions = [],
               withdrawals = [], settings = DEFAULT_SETTINGS \<rparr>"

text \<open>A distribution to \<open>test1\<close> with the given outcome and view count.\<close>

definition dist1 :: "DistStatus \<Rightarrow> rat \<Rightarrow> Distribution" where
  "dist1 st v = \<lparr> dId = ''d_1_u_test1'', songId = ''s_1'', dUserId = ''u_test1'',
                  distributedAt = 1, dStatus = st, views = v \<rparr>"

definition dbWith :: "Distribution list \<Rightarrow> DB" where
  "dbWith ds = initialDB \<lparr> distributions := ds \<rparr>"

text \<open>
  The store after \<open>test1\<close> has withdrawn a displayed balance of 22.5 at time 1000, the
  views having doubled since; and a store with a withdrawal of \<open>test2\<close> at time 500
  followed by one of \<open>test1\<close> at time 1000.
\<close>

definition onePending :: DB where
  "onePending =
     (fst (handleWithdraw 1000 u_test1 (45 / 2) (dbWith [dist1 success 1000000])))
       \<lparr> distributions := [dist1 success 2000000] \<rparr>"

definition twoTenants :: DB where
  "twoTenants =
     fst (handleWithdraw 1000 u_test1 (45 / 2)
       (fst (handleWithdraw 500 u_test2 16 (dbWith [dist1 success 2000000]))))"

text \<open>An environment for the import: identifiers numbered by line, a fixed clock.\<close>

definition exampleRuntime :: Runtime where
  "exampleRuntime =
     \<lparr> freshUserId = (\<lambda>i. ''u_5000_'' @ decimal i), freshChannelId = (\<lambda>i. ''c_5000_'' @ decimal i),
       clock = (\<lambda>i. 5000),
       parseFloat = (\<lambda>s. if s = ''70'' then 70 else if s = ''75'' then 75 else 0) \<rparr>"

text \<open>
  Payloads for the import: five rows of which the third is malformed; two rows naming
  the same new user; a header and one row; one row whose fourth cell contains the word
  \<open>username\<close>.
\<close>

definition csvThirdBad :: string where
  "csvThirdBad = ''alice,pw,70,ChA,UC1\<newline>bob,pw,75,ChB,tt2\<newline>carol,pw\<newline>dave,pw,70,ChD,UC4\<newline>erin,pw,75,ChE,tt5''"

definition csvSameName :: string where
  "csvSameName = ''alice,pw,70,ChA,UC1\<newline>alice,pw,70,ChB,tt2''"

definition csvHeader :: string where
  "csvHeader = ''Username,Password,Ratio,Channel_Name,Channel_ID\<newline>alice,pw,70,ChA,UC1''"

definition csvFans :: string where
  "csvFans = ''bob,pw,50,username fans,UC1''"

text \<open>
  Further payloads: a first row of two fields whose first cell contains \<open>username\<close>; a
  malformed row after two blank lines; two rows naming the same new user
  \<open>username_bob\<close>.
\<close>

definition csvHeaderLike :: string where
  "csvHeaderLike = ''bobusername,pw\<newline>carol,pw,75,ChC,UC3''"

definition csvLeadingBlank :: string where
  "csvLeadingBlank = ''\<newline>\<newline>carol,pw''"

definition csvUsernameBob :: string where
  "csvUsernameBob = ''username_bob,pw,70,ChA,UC1\<newline>username_bob,pw,70,ChB,tt2''"

section \<open>Auxiliary facts\<close>

declare decimal.simps [simp del]

lemma foldl_views: "foldl (\<lambda>acc d. acc + views d) a ds = a + sum_list (map views ds)"
  by (induction ds arbitrary: a) simp_all

lemma foldl_amount: "foldl (\<lambda>acc w. acc + amount w) a ws = a + sum_list (map amount ws)"
  by (induction ws arbitrary: a) simp_all

lemma filter_dUserId_dStatus_update:
  "filter (\<lambda>d. dUserId d = i) (map (\<lambda>d. d \<lparr> dStatus := g d \<rparr>) ds) =
     map (\<lambda>d. d \<lparr> dStatus := g d \<rparr>) (filter (\<lambda>d. dUserId d = i) ds)"
  by (induction ds) simp_all



text \<open>The balance of the dashboard, written out.\<close>

lemma SubDashboard_balance_eq:
  "SubDashboard_balance u db =
     max 0 (sum_list (map views (filter (\<lambda>d. dUserId d = uId u) (distributions db))) / 1000
              * globalPricePer1k (settings db) * (ratio u / 100)
            - sum_list (map amount (filter (\<lambda>w. wUserId w = uId u) (withdrawals db))))"
  by (simp add: SubDashboard_balance_def SubDashboard_revenue_def SubDashboard_totalViews_def
      SubDashboard_dists_def SubDashboard_withdrawn_def SubDashboard_withdrawals_def
      foldl_views foldl_amount)


text \<open>
  The examples of the specification: \<open>test1\<close> (ratio 75) at the default price 0.03 with
  one successful distribution of 1,000,000 views has balance 22.5; with 2,000 views,
  0.045.
\<close>

lemmas balance_unfold =
  SubDashboard_balance_def SubDashboard_revenue_def SubDashboard_totalViews_def
  SubDashboard_dists_def SubDashboard_withdrawn_def SubDashboard_withdrawals_def
  dbWith_def initialDB_def dist1_def u_test1_def DEFAULT_SETTINGS_def

lemma balance_million: "SubDashboard_balance u_test1 (dbWith [dist1 st 1000000]) = 45 / 2"
  by (simp add: balance_unfold)

lemma balance_two_thousand: "SubDashboard_balance u_test1 (dbWith [dist1 st 2000]) = 9 / 200"
  by (simp add: balance_unfold)

section \<open>Available balance\<close>

text \<open>
  Claim C4. For every tenant and every store, the available balance computed by the
  dashboard is at least 0; in particular in the store that any run of the withdrawal
  handler, for any tenant and with any captured balance, leaves behind.
\<close>

theorem balance_nonneg:
  "0 \<le> SubDashboard_balance u db \<and>
   0 \<le> SubDashboard_balance u (fst (handleWithdraw now v b db))"
  by (simp add: SubDashboard_balance_def)

section \<open>Withdrawal requests\<close>

text \<open>
  Claim C2, as the code has it. The handler uses the balance that its dashboard computed
  when it rendered, from the store \<open>r\<close> read then: the tenant's net revenue less the
  tenant's withdrawals, floored at 0. Run on a store \<open>c\<close>, it fails with
  \<open>InsufficientBalance\<close> exactly when that balance is below 10, and then leaves \<open>c\<close> as it
  was; otherwise it appends to \<open>c\<close> one withdrawal of the tenant, of status \<open>pending\<close>,
  whose amount is that balance, and changes nothing else. When the store has not changed
  since the render (\<open>c = r\<close>) the amount is the whole balance available at the call.
\<close>

theorem handleWithdraw_rendered_balance:
  "SubDashboard_balance u r =
     max 0 (sum_list (map views (filter (\<lambda>d. dUserId d = uId u) (distributions r))) / 1000
              * globalPricePer1k (settings r) * (ratio u / 100)
            - sum_list (map amount (filter (\<lambda>w. wUserId w = uId u) (withdrawals r)))) \<and>
   (SubDashboard_balance u r < 10 \<longrightarrow>
      handleWithdraw now u (SubDashboard_balance u r) c = (c, Inl InsufficientBalance)) \<and>
   (\<not> SubDashboard_balance u r < 10 \<longrightarrow>
      handleWithdraw now u (SubDashboard_balance u r) c =
        (c \<lparr> withdrawals := withdrawals c @
               [\<lparr> wId = ''w_'' @ decimal now, wUserId = uId u, amount = SubDashboard_balance u r,
                  date = now, wStatus = pending \<rparr>] \<rparr>,
         Inr \<lparr> wId = ''w_'' @ decimal now, wUserId = uId u, amount = SubDashboard_balance u r,
               date = now, wStatus = pending \<rparr>))"
  using SubDashboard_balance_eq [of u r] by (simp add: handleWithdraw_def Let_def)

theorem handleWithdraw_rendered_balance_witness:
  "handleWithdraw 1000 u_test1 (SubDashboard_balance u_test1 (dbWith [dist1 success 2000]))
       (dbWith [dist1 success 2000]) =
     (dbWith [dist1 success 2000], Inl InsufficientBalance) \<and>
   handleWithdraw 1000 u_test1 (SubDashboard_balance u_test1 (dbWith [dist1 success 1000000]))
       (dbWith [dist1 success 1000000]) =
     ((dbWith [dist1 success 1000000])
        \<lparr> withdrawals := [\<lparr> wId = ''w_'' @ decimal 1000, wUserId = ''u_test1'', amount = 45 / 2,
                             date = 1000, wStatus = pending \<rparr>] \<rparr>,
      Inr \<lparr> wId = ''w_'' @ decimal 1000, wUserId = ''u_test1'', amount = 45 / 2,
            date = 1000, wStatus = pending \<rparr>)"
proof -
  have small: "SubDashboard_balance u_test1 (dbWith [dist1 success 2000]) < 10"
    by (simp add: balance_two_thousand)
  have large: "\<not> SubDashboard_balance u_test1 (dbWith [dist1 success 1000000]) < 10"
    by (simp add: balance_million)
  have none: "withdrawals (dbWith [dist1 success 1000000]) = []"
    by (simp add: dbWith_def initialDB_def)
  have i: "uId u_test1 = ''u_test1''"
    by (simp add: u_test1_def)
  have first: "handleWithdraw 1000 u_test1 (SubDashboard_balance u_test1 (dbWith [dist1 success 2000]))
       (dbWith [dist1 success 2000]) = (dbWith [dist1 success 2000], Inl InsufficientBalance)"
    using handleWithdraw_rendered_balance
            [of u_test1 "dbWith [dist1 success 2000]" 1000 "dbWith [dist1 success 2000]"] small
    by blast
  have "handleWithdraw 1000 u_test1 (SubDashboard_balance u_test1 (dbWith [dist1 success 1000000]))
       (dbWith [dist1 success 1000000]) =
     ((dbWith [dist1 success 1000000])
        \<lparr> withdrawals := withdrawals (dbWith [dist1 success 1000000]) @
             [\<lparr> wId = ''w_'' @ decimal 1000, wUserId = uId u_test1,
                amount = SubDashboard_balance u_test1 (dbWith [dist1 success 1000000]),
                date = 1000, wStatus = pending \<rparr>] \<rparr>,
      Inr \<lparr> wId = ''w_'' @ decimal 1000, wUserId = uId u_test1,
            amount = SubDashboard_balance u_test1 (dbWith [dist1 success 1000000]),
            date = 1000, wStatus = pending \<rparr>)"
    using handleWithdraw_rendered_balance
            [of u_test1 "dbWith [dist1 success 1000000]" 1000 "dbWith [dist1 success 1000000]"] large
    by blast
  then have second: "handleWithdraw 1000 u_test1
       (SubDashboard_balance u_test1 (dbWith [dist1 success 1000000]))
       (dbWith [dist1 success 1000000]) =
     ((dbWith [dist1 success 1000000])
        \<lparr> withdrawals := [\<lparr> wId = ''w_'' @ decimal 1000, wUserId = ''u_test1'', amount = 45 / 2,
                             date = 1000, wStatus = pending \<rparr>] \<rparr>,
      Inr \<lparr> wId = ''w_'' @ decimal 1000, wUserId = ''u_test1'', amount = 45 / 2,
            date = 1000, wStatus = pending \<rparr>)"
    by (simp only: none i append_Nil balance_million)
  show ?thesis
    by (intro conjI) (rule first second)+
qed

text \<open>
  Claim C2 as stated fails: the dashboard of \<open>test1\<close> rendered at 1,000,000 views
  computes 22.5; the views have grown to 1,000,046 when the button is pressed. The
  withdrawal is of 22.5, and the balance available at that instant is 22.501035.
\<close>

theorem stale_balance_withdrawn:
  "map amount (withdrawals (fst (handleWithdraw 1000 u_test1
       (SubDashboard_balance u_test1 (dbWith [dist1 success 1000000]))
       (dbWith [dist1 success 1000046])))) = [45 / 2] \<and>
   SubDashboard_balance u_test1 (dbWith [dist1 success 1000046]) = 4500207 / 200000"
  by (simp add: handleWithdraw_def Let_def balance_unfold)




section \<open>The platform fee\<close>

text \<open>
  Claim C10. Two stores that differ only in \<open>platformFee\<close> give the same total views,
  gross and net revenue, per-distribution revenue, withdrawn total and available
  balance for every tenant, and the same dashboard totals; the exported report differs
  only in its Platform Fee column, which repeats the stored value.
\<close>

theorem platformFee_not_used:
  "SubDashboard_totalViews u (db \<lparr> settings := (settings db) \<lparr> platformFee := f \<rparr> \<rparr>) =
     SubDashboard_totalViews u db \<and>
   SubDashboard_revenue u (db \<lparr> settings := (settings db) \<lparr> platformFee := f \<rparr> \<rparr>) =
     SubDashboard_revenue u db \<and>
   SubDashboard_withdrawn u (db \<lparr> settings := (settings db) \<lparr> platformFee := f \<rparr> \<rparr>) =
     SubDashboard_withdrawn u db \<and>
   SubDashboard_balance u (db \<lparr> settings := (settings db) \<lparr> platformFee := f \<rparr> \<rparr>) =
     SubDashboard_balance u db \<and>
   SubMusic_revenue u (db \<lparr> settings := (settings db) \<lparr> platformFee := f \<rparr> \<rparr>) d =
     SubMusic_revenue u db d \<and>
   AdminRevenue_gross u (db \<lparr> settings := (settings db) \<lparr> platformFee := f \<rparr> \<rparr>) =
     AdminRevenue_gross u db \<and>
   AdminRevenue_net u (db \<lparr> settings := (settings db) \<lparr> platformFee := f \<rparr> \<rparr>) =
     AdminRevenue_net u db \<and>
   AdminRevenue_rows (db \<lparr> settings := (settings db) \<lparr> platformFee := f \<rparr> \<rparr>) =
     AdminRevenue_rows db \<and>
   AdminUsers_revenue u (db \<lparr> settings := (settings db) \<lparr> platformFee := f \<rparr> \<rparr>) =
     AdminUsers_revenue u db \<and>
   AdminDashboard_totalRevenue (db \<lparr> settings := (settings db) \<lparr> platformFee := f \<rparr> \<rparr>) =
     AdminDashboard_totalRevenue db \<and>
   exportExcel (db \<lparr> settings := (settings db) \<lparr> platformFee := f \<rparr> \<rparr>) =
     map (\<lambda>(n, r, v, g, p, t). (n, r, v, g, f, t)) (exportExcel db)"
  by (simp add: SubDashboard_totalViews_def SubDashboard_revenue_def SubDashboard_withdrawn_def
      SubDashboard_balance_def SubDashboard_dists_def SubDashboard_withdrawals_def
      SubMusic_revenue_def AdminRevenue_gross_def AdminRevenue_net_def AdminRevenue_views_def
      AdminRevenue_rows_def AdminRevenue_users_def AdminUsers_revenue_def
      AdminDashboard_totalRevenue_def AdminDashboard_totalViews_def exportExcel_def)

section \<open>Outcome of a distribution\<close>

text \<open>
  Claim C1, as the code has it. The attribution never reads the outcome of a
  distribution: the views summed for a tenant are those of all the distributions that
  carry the tenant's id, and setting the outcomes to anything else changes neither the
  total views nor the gross revenue, the net revenue or the available balance.
\<close>

theorem outcome_not_read:
  "SubDashboard_totalViews u (db \<lparr> distributions := map (\<lambda>d. d \<lparr> dStatus := g d \<rparr>) (distributions db) \<rparr>) =
     SubDashboard_totalViews u db \<and>
   SubDashboard_revenue u (db \<lparr> distributions := map (\<lambda>d. d \<lparr> dStatus := g d \<rparr>) (distributions db) \<rparr>) =
     SubDashboard_revenue u db \<and>
   SubDashboard_balance u (db \<lparr> distributions := map (\<lambda>d. d \<lparr> dStatus := g d \<rparr>) (distributions db) \<rparr>) =
     SubDashboard_balance u db \<and>
   AdminRevenue_views u (db \<lparr> distributions := map (\<lambda>d. d \<lparr> dStatus := g d \<rparr>) (distributions db) \<rparr>) =
     AdminRevenue_views u db \<and>
   AdminRevenue_gross u (db \<lparr> distributions := map (\<lambda>d. d \<lparr> dStatus := g d \<rparr>) (distributions db) \<rparr>) =
     AdminRevenue_gross u db \<and>
   AdminRevenue_net u (db \<lparr> distributions := map (\<lambda>d. d \<lparr> dStatus := g d \<rparr>) (distributions db) \<rparr>) =
     AdminRevenue_net u db \<and>
   SubDashboard_totalViews u db =
     sum_list (map views (filter (\<lambda>d. dUserId d = uId u) (distributions db))) \<and>
   AdminRevenue_views u db =
     sum_list (map views (filter (\<lambda>d. dUserId d = uId u) (distributions db)))"
  by (simp add: SubDashboard_totalViews_def SubDashboard_revenue_def SubDashboard_balance_def
      SubDashboard_dists_def SubDashboard_withdrawn_def SubDashboard_withdrawals_def
      AdminRevenue_views_def AdminRevenue_gross_def AdminRevenue_net_def
      foldl_views filter_dUserId_dStatus_update o_def)

text \<open>
  Claim C1 as stated fails: the only distribution of \<open>test1\<close> has failed, and its
  1,000,000 views are counted, for a gross revenue of 30 and a net revenue and balance
  of 22.5 where the claim has 0.
\<close>

theorem failed_distribution_counted:
  "dStatus (dist1 failed 1000000) = failed \<and>
   SubDashboard_dists u_test1 (dbWith [dist1 failed 1000000]) = [dist1 failed 1000000] \<and>
   SubDashboard_totalViews u_test1 (dbWith [dist1 failed 1000000]) = 1000000 \<and>
   SubDashboard_revenue u_test1 (dbWith [dist1 failed 1000000]) = 45 / 2 \<and>
   SubDashboard_balance u_test1 (dbWith [dist1 failed 1000000]) = 45 / 2 \<and>
   AdminRevenue_views u_test1 (dbWith [dist1 failed 1000000]) = 1000000 \<and>
   AdminRevenue_gross u_test1 (dbWith [dist1 failed 1000000]) = 30 \<and>
   AdminRevenue_net u_test1 (dbWith [dist1 failed 1000000]) = 45 / 2"
  by (simp add: balance_unfold AdminRevenue_views_def AdminRevenue_gross_def AdminRevenue_net_def)

section \<open>Saving the rate configuration\<close>

text \<open>
  Claim C8, as the code has it. \<open>save\<close> checks nothing and cannot fail: the settings
  held by the form become the stored settings whatever their values, the rest of the
  store is untouched, and the revenue of every tenant is at once computed at the new
  price.
\<close>

theorem save_stores_any_config:
  "settings (save s db) = s \<and> users (save s db) = users db \<and> channels (save s db) = channels db \<and>
   songs (save s db) = songs db \<and> distributions (save s db) = distributions db \<and>
   withdrawals (save s db) = withdrawals db \<and>
   SubDashboard_revenue u (save s db) =
     (SubDashboard_totalViews u db / 1000) * globalPricePer1k s * (ratio u / 100)"
  by (simp add: save_def SubDashboard_revenue_def SubDashboard_totalViews_def SubDashboard_dists_def)

text \<open>
  Claim C8 as stated fails: a price of -1 typed into the form and saved is stored; no
  \<open>InvalidConfig\<close> is raised and the stored configuration has changed.
\<close>

theorem negative_price_stored:
  "settings (save (AdminSettings_onChange (- 1) (settings initialDB)) initialDB) =
     \<lparr> globalPricePer1k = - 1, platformFee = 0 \<rparr> \<and>
   globalPricePer1k (settings (save (AdminSettings_onChange (- 1) (settings initialDB)) initialDB)) < 0 \<and>
   settings (save (AdminSettings_onChange (- 1) (settings initialDB)) initialDB) \<noteq> settings initialDB"
  by (simp add: save_def AdminSettings_onChange_def initialDB_def DEFAULT_SETTINGS_def)

section \<open>The withdrawal history\<close>

lemma SubEarnings_handleWithdraw:
  "SubEarnings v (fst (handleWithdraw now u b db)) =
     (if b < 10 \<or> uId u \<noteq> uId v then SubEarnings v db
      else SubEarnings v db @ [\<lparr> wId = ''w_'' @ decimal now, wUserId = uId u,
             amount = b, date = now, wStatus = pending \<rparr>])"
  by (auto simp add: SubEarnings_def handleWithdraw_def Let_def)

lemma twoTenants_withdrawals:
  "map wUserId (withdrawals twoTenants) = [''u_test2'', ''u_test1''] \<and>
   map date (withdrawals twoTenants) = [500, 1000] \<and>
   map amount (withdrawals twoTenants) = [16, 45 / 2]"
  by (simp add: twoTenants_def handleWithdraw_def Let_def dbWith_def initialDB_def
      u_test1_def u_test2_def)

lemma twoTenants_balance: "SubDashboard_balance u_test1 twoTenants = 45 / 2"
  by (simp add: twoTenants_def handleWithdraw_def Let_def balance_unfold u_test2_def)

lemma onePending_balance: "SubDashboard_balance u_test1 onePending = 45 / 2"
  by (simp add: onePending_def handleWithdraw_def Let_def balance_unfold)

text \<open>
  Claim C9, as the code has it. The history of a tenant is exactly the withdrawals of
  that tenant, in the order of the store. An accepted request is appended to the store:
  it comes last in the history of its tenant and leaves the history of every other
  tenant as it was. Hence, when the stored withdrawals are in ascending order of time
  and none is later than the clock, every history is in ascending order of time: oldest
  first, most recent last.
\<close>

theorem SubEarnings_stored_order:
  "SubEarnings v db = filter (\<lambda>w. wUserId w = uId v) (withdrawals db) \<and>
   (\<forall>w. snd (handleWithdraw now u b db) = Inr w \<longrightarrow>
      date w = now \<and> wUserId w = uId u \<and>
      withdrawals (fst (handleWithdraw now u b db)) = withdrawals db @ [w] \<and>
      SubEarnings v (fst (handleWithdraw now u b db)) =
        (if uId v = uId u then SubEarnings v db @ [w] else SubEarnings v db)) \<and>
   (sorted (map date (withdrawals db)) \<and> (\<forall>x \<in> set (withdrawals db). date x \<le> now) \<longrightarrow>
      sorted (map date (SubEarnings v (fst (handleWithdraw now u b db)))))"
proof -
  have a: "SubEarnings v db = filter (\<lambda>w. wUserId w = uId v) (withdrawals db)"
    by (simp add: SubEarnings_def)
  have b: "\<forall>w. snd (handleWithdraw now u b db) = Inr w \<longrightarrow>
      date w = now \<and> wUserId w = uId u \<and>
      withdrawals (fst (handleWithdraw now u b db)) = withdrawals db @ [w] \<and>
      SubEarnings v (fst (handleWithdraw now u b db)) =
        (if uId v = uId u then SubEarnings v db @ [w] else SubEarnings v db)"
    by (auto simp add: SubEarnings_def handleWithdraw_def Let_def split: if_splits)
  have c: "sorted (map date (SubEarnings v (fst (handleWithdraw now u b db))))"
    if s: "sorted (map date (withdrawals db))" and le: "\<forall>x \<in> set (withdrawals db). date x \<le> now"
  proof -
    have "sorted (map date (SubEarnings v db))"
      using s unfolding SubEarnings_def by (simp add: sorted_map sorted_wrt_filter)
    moreover have "\<forall>x \<in> set (SubEarnings v db). date x \<le> now"
      using le by (simp add: SubEarnings_def)
    ultimately show ?thesis
      by (simp add: SubEarnings_handleWithdraw sorted_append)
  qed
  from a b c show ?thesis by blast
qed

theorem SubEarnings_stored_order_witness:
  "map wUserId (withdrawals twoTenants) = [''u_test2'', ''u_test1''] \<and>
   map date (SubEarnings u_test1
     (fst (handleWithdraw 2000 u_test1 (SubDashboard_balance u_test1 twoTenants) twoTenants))) =
     [1000, 2000] \<and>
   map date (SubEarnings u_test2
     (fst (handleWithdraw 2000 u_test1 (SubDashboard_balance u_test1 twoTenants) twoTenants))) =
     [500] \<and>
   sorted (map date (SubEarnings u_test1
     (fst (handleWithdraw 2000 u_test1 (SubDashboard_balance u_test1 twoTenants) twoTenants))))"
proof -
  let ?b = "SubDashboard_balance u_test1 twoTenants"
  let ?after = "fst (handleWithdraw 2000 u_test1 ?b twoTenants)"
  note T1 = SubEarnings_stored_order [of u_test1 twoTenants 2000 u_test1 ?b]
  note T2 = SubEarnings_stored_order [of u_test2 twoTenants 2000 u_test1 ?b]
  have "\<exists>w. snd (handleWithdraw 2000 u_test1 ?b twoTenants) = Inr w"
    by (simp add: handleWithdraw_def Let_def twoTenants_balance)
  then obtain w where w: "snd (handleWithdraw 2000 u_test1 ?b twoTenants) = Inr w" ..
  have ids: "uId u_test2 \<noteq> uId u_test1"
    by (simp add: u_test1_def u_test2_def)
  have l1: "map date (SubEarnings u_test1 twoTenants) = [1000]"
    using T1 by (simp add: twoTenants_def handleWithdraw_def Let_def dbWith_def initialDB_def
        u_test1_def u_test2_def)
  have l2: "map date (SubEarnings u_test2 twoTenants) = [500]"
    using T2 by (simp add: twoTenants_def handleWithdraw_def Let_def dbWith_def initialDB_def
        u_test1_def u_test2_def)
  have a1: "SubEarnings u_test1 ?after = SubEarnings u_test1 twoTenants @ [w]" "date w = 2000"
    using T1 w by auto
  have a2: "SubEarnings u_test2 ?after = SubEarnings u_test2 twoTenants"
    using T2 w ids by auto
  have d1: "map date (SubEarnings u_test1 ?after) = [1000, 2000]"
    by (simp add: a1 l1)
  have d2: "map date (SubEarnings u_test2 ?after) = [500]"
    by (simp add: a2 l2)
  have "sorted (map date (SubEarnings u_test1 ?after))"
    by (simp add: d1)
  with d1 d2 twoTenants_withdrawals show ?thesis
    by blast
qed

text \<open>
  Claim C9 as stated fails: after two accepted requests of \<open>test1\<close>, at times 1000 and
  2000, the history shows the request of time 1000 first and the most recent one last.
\<close>

theorem most_recent_listed_last:
  "map date (SubEarnings u_test1
     (fst (handleWithdraw 2000 u_test1 (SubDashboard_balance u_test1 onePending) onePending))) =
     [1000, 2000] \<and>
   map amount (SubEarnings u_test1
     (fst (handleWithdraw 2000 u_test1 (SubDashboard_balance u_test1 onePending) onePending))) =
     [45 / 2, 45 / 2]"
  unfolding onePending_balance
  by (simp add: SubEarnings_def onePending_def handleWithdraw_def Let_def dbWith_def initialDB_def
      u_test1_def)

section \<open>Batch import\<close>

subsection \<open>Strings\<close>

lemma split_str_not_Nil: "split_str sep s \<noteq> []"
  by (induction s) (auto split: list.splits)

lemma hd_split_str: "hd (split_str sep s) = takeWhile (\<lambda>c. c \<noteq> sep) s"
  by (induction s) (auto split: list.splits simp: split_str_not_Nil)

lemma startsWith_iff: "startsWith s p \<longleftrightarrow> (\<exists>b. s = p @ b)"
  unfolding startsWith_def
  by (metis append_eq_conv_conj append_take_drop_id)

lemma includes_str_iff: "includes_str s p \<longleftrightarrow> (\<exists>a b. s = a @ p @ b)"
proof (induction s)
  case Nil
  then show ?case by auto
next
  case (Cons c cs)
  show ?case
  proof
    assume "includes_str (c # cs) p"
    then consider "startsWith (c # cs) p" | "includes_str cs p" by auto
    then show "\<exists>a b. c # cs = a @ p @ b"
    proof cases
      case 1
      then obtain b where "c # cs = p @ b" by (auto simp: startsWith_iff)
      then have "c # cs = [] @ p @ b" by simp
      then show ?thesis by blast
    next
      case 2
      then obtain a b where "cs = a @ p @ b" using Cons.IH by blast
      then have "c # cs = (c # a) @ p @ b" by simp
      then show ?thesis by blast
    qed
  next
    assume "\<exists>a b. c # cs = a @ p @ b"
    then obtain a b where ab: "c # cs = a @ p @ b" by blast
    show "includes_str (c # cs) p"
    proof (cases a)
      case Nil
      then have "startsWith (c # cs) p" using ab by (auto simp: startsWith_iff)
      then show ?thesis by simp
    next
      case (Cons x a')
      then have "cs = a' @ p @ b" using ab by simp
      then have "includes_str cs p" using Cons.IH by blast
      then show ?thesis by simp
    qed
  qed
qed

lemma trim_infix: "\<exists>a b. s = a @ trim s @ b"
proof -
  let ?t = "dropWhile isWhiteSpace s"
  have 1: "s = takeWhile isWhiteSpace s @ ?t" by simp
  have "rev ?t = takeWhile isWhiteSpace (rev ?t) @ dropWhile isWhiteSpace (rev ?t)" by simp
  then have "?t = rev (dropWhile isWhiteSpace (rev ?t)) @ rev (takeWhile isWhiteSpace (rev ?t))"
    by (metis rev_append rev_rev_ident)
  then have "?t = trim s @ rev (takeWhile isWhiteSpace (rev ?t))"
    by (simp add: trim_def)
  with 1 show ?thesis by metis
qed

lemma first_cell_header:
  assumes "toLowerCase (trim (hd (split_str (CHR '','') l))) = ''username''"
  shows "includes_str (toLowerCase l) ''username''"
proof -
  let ?c = "takeWhile (\<lambda>c. c \<noteq> CHR '','') l"
  obtain a b where ab: "?c = a @ trim ?c @ b" using trim_infix by blast
  have "l = ?c @ dropWhile (\<lambda>c. c \<noteq> CHR '','') l" by simp
  then have "l = a @ trim ?c @ (b @ dropWhile (\<lambda>c. c \<noteq> CHR '','') l)"
    using ab by (metis append.assoc)
  then have "toLowerCase l = toLowerCase a @ toLowerCase (trim ?c) @ toLowerCase (b @ dropWhile (\<lambda>c. c \<noteq> CHR '','') l)"
    unfolding toLowerCase_def by (metis map_append)
  then show ?thesis
    using assms unfolding includes_str_iff hd_split_str by metis
qed


subsection \<open>Rows and the loop\<close>

lemma find_append:
  "find P (xs @ ys) = (case find P xs of None \<Rightarrow> find P ys | Some x \<Rightarrow> Some x)"
  by (induction xs) simp_all

lemma findUser_append_Some:
  "findUser n cur nu0 = Some u \<Longrightarrow> findUser n cur (nu0 @ nu) = Some u"
  by (auto simp: findUser_def find_append split: option.splits)

lemma findUser_None_iff:
  "findUser n cur nu0 = None \<longleftrightarrow> n \<notin> set (map username cur) \<and> n \<notin> set (map username nu0)"
proof (cases "find (\<lambda>u. username u = n) cur")
  case None
  have "n \<notin> set (map username cur)"
    using None by (auto simp: find_None_iff)
  moreover have "findUser n cur nu0 = find (\<lambda>u. username u = n) nu0"
    using None by (simp add: findUser_def)
  moreover have "find (\<lambda>u. username u = n) nu0 = None \<longleftrightarrow> n \<notin> set (map username nu0)"
    by (auto simp: find_None_iff)
  ultimately show ?thesis
    by simp
next
  case (Some x)
  then have "x \<in> set cur \<and> username x = n"
    by (auto simp: find_Some_iff)
  then have "n \<in> set (map username cur)"
    by force
  with Some show ?thesis
    by (simp add: findUser_def)
qed

lemma findUser_new:
  "findUser n cur nu0 = None \<Longrightarrow> username u = n \<Longrightarrow> findUser n cur (nu0 @ u # nu) = Some u"
  by (auto simp: findUser_def find_append split: option.splits)

lemma cells_0: "map trim (split_str sep row) ! 0 = trim (split_str sep row ! 0)"
  using split_str_not_Nil [of sep row] by (cases "split_str sep row") simp_all

lemma processRow_found:
  "findUser (rowName row) cur nu0 = Some u \<Longrightarrow>
   processRow rt cur i (split_str (CHR '','') row) (nu0, nc0) =
     (nu0, nc0 @ [createChannel rt i u (map trim (split_str (CHR '','') row))])"
  by (simp add: processRow_def Let_def rowName_def cells_0)

lemma processRow_new:
  "findUser (rowName row) cur nu0 = None \<Longrightarrow>
   processRow rt cur i (split_str (CHR '','') row) (nu0, nc0) =
     (nu0 @ [createUser rt i (map trim (split_str (CHR '','') row))],
      nc0 @ [createChannel rt i (createUser rt i (map trim (split_str (CHR '','') row)))
               (map trim (split_str (CHR '','') row))])"
  by (simp add: processRow_def Let_def rowName_def cells_0)

lemma username_createUser:
  "username (createUser rt i (map trim (split_str (CHR '','') row))) = rowName row"
  by (simp add: createUser_def rowName_def cells_0)

lemma cUserId_createChannel: "cUserId (createChannel rt i u cells) = uId u"
  by (simp add: createChannel_def)

lemma loop_malformed:
  assumes "\<exists>l \<in> set ls. trim l \<noteq> [] \<and> malformed (trim l)"
  shows "\<exists>k < length ls. processCSV_loop rt cur i ls acc = Inl (MalformedRow (i + k + 1)) \<and>
           trim (ls ! k) \<noteq> [] \<and> malformed (trim (ls ! k)) \<and>
           (\<forall>j < k. trim (ls ! j) \<noteq> [] \<longrightarrow> \<not> malformed (trim (ls ! j)))"
  using assms
proof (induction ls arbitrary: i acc)
  case Nil
  then show ?case by simp
next
  case (Cons l ls)
  show ?case
  proof (cases "trim l \<noteq> [] \<and> malformed (trim l)")
    case True
    then have "processCSV_loop rt cur i (l # ls) acc = Inl (MalformedRow (i + 0 + 1))"
      by (simp add: malformed_def)
    with True show ?thesis
      by (intro exI [of _ 0]) simp
  next
    case False
    with Cons.prems have bad: "\<exists>l \<in> set ls. trim l \<noteq> [] \<and> malformed (trim l)"
      by auto
    define acc' where
      "acc' = (if trim l = [] then acc else processRow rt cur i (split_str (CHR '','') (trim l)) acc)"
    have step: "processCSV_loop rt cur i (l # ls) acc = processCSV_loop rt cur (i + 1) ls acc'"
      using False by (auto simp: malformed_def acc'_def)
    from Cons.IH [OF bad, of "i + 1" acc']
    obtain k where k: "k < length ls"
        "processCSV_loop rt cur (i + 1) ls acc' = Inl (MalformedRow (i + 1 + k + 1))"
        "trim (ls ! k) \<noteq> []" "malformed (trim (ls ! k))"
        "\<forall>j < k. trim (ls ! j) \<noteq> [] \<longrightarrow> \<not> malformed (trim (ls ! j))"
      by blast
    have "\<forall>j < Suc k. trim ((l # ls) ! j) \<noteq> [] \<longrightarrow> \<not> malformed (trim ((l # ls) ! j))"
      using k(5) False by (auto simp: less_Suc_eq_0_disj)
    then show ?thesis
      using k step by (intro exI [of _ "Suc k"]) simp
  qed
qed

lemma loop_success:
  assumes "\<forall>l \<in> set ls. trim l \<noteq> [] \<longrightarrow> \<not> malformed (trim l)"
  shows "\<exists>nu nc. processCSV_loop rt cur i ls (nu0, nc0) = Inr (nu0 @ nu, nc0 @ nc) \<and>
           length nc = length (filter (\<lambda>l. l \<noteq> []) (map trim ls)) \<and>
           distinct (map username nu) \<and>
           set (map username nu) =
             set (map rowName (filter (\<lambda>l. l \<noteq> []) (map trim ls)))
               - set (map username cur) - set (map username nu0) \<and>
           map cUserId nc =
             map (\<lambda>row. uId (the (findUser (rowName row) cur (nu0 @ nu))))
               (filter (\<lambda>l. l \<noteq> []) (map trim ls))"
  using assms
proof (induction ls arbitrary: i nu0 nc0)
  case Nil
  then show ?case by simp
next
  case (Cons l ls)
  let ?rows = "filter (\<lambda>l. l \<noteq> []) (map trim ls)"
  have rest: "\<forall>l \<in> set ls. trim l \<noteq> [] \<longrightarrow> \<not> malformed (trim l)"
    using Cons.prems by simp
  show ?case
  proof (cases "trim l = []")
    case True
    from Cons.IH [OF rest, of "i + 1" nu0 nc0] True show ?thesis
      by simp
  next
    case False
    then have wf: "\<not> length (split_str (CHR '','') (trim l)) < 5"
      using Cons.prems by (simp add: malformed_def)
    let ?cells = "map trim (split_str (CHR '','') (trim l))"
    show ?thesis
    proof (cases "findUser (rowName (trim l)) cur nu0")
      case (Some u)
      let ?ch = "createChannel rt i u ?cells"
      have step: "processCSV_loop rt cur i (l # ls) (nu0, nc0) =
                    processCSV_loop rt cur (i + 1) ls (nu0, nc0 @ [?ch])"
        using False wf by (simp add: processRow_found [OF Some])
      from Cons.IH [OF rest, of "i + 1" nu0 "nc0 @ [?ch]"]
      obtain nu nc where r:
          "processCSV_loop rt cur (i + 1) ls (nu0, nc0 @ [?ch]) = Inr (nu0 @ nu, (nc0 @ [?ch]) @ nc)"
          "length nc = length ?rows" "distinct (map username nu)"
          "set (map username nu) = set (map rowName ?rows) - set (map username cur) - set (map username nu0)"
          "map cUserId nc = map (\<lambda>row. uId (the (findUser (rowName row) cur (nu0 @ nu)))) ?rows"
        by blast
      have known: "rowName (trim l) \<in> set (map username cur) \<union> set (map username nu0)"
        using Some findUser_None_iff [of "rowName (trim l)" cur nu0] by auto
      have "processCSV_loop rt cur i (l # ls) (nu0, nc0) = Inr (nu0 @ nu, nc0 @ (?ch # nc))"
        using step r(1) by simp
      moreover have "length (?ch # nc) = length (filter (\<lambda>l. l \<noteq> []) (map trim (l # ls)))"
        using False r(2) by simp
      moreover have "set (map username nu) =
             set (map rowName (filter (\<lambda>l. l \<noteq> []) (map trim (l # ls))))
               - set (map username cur) - set (map username nu0)"
        using False r(4) known by auto
      moreover have "map cUserId (?ch # nc) =
             map (\<lambda>row. uId (the (findUser (rowName row) cur (nu0 @ nu))))
               (filter (\<lambda>l. l \<noteq> []) (map trim (l # ls)))"
        using False r(5) findUser_append_Some [OF Some, of nu]
        by (simp add: cUserId_createChannel)
      ultimately show ?thesis
        using r(3) by blast
    next
      case None
      let ?u = "createUser rt i ?cells"
      let ?ch = "createChannel rt i ?u ?cells"
      have step: "processCSV_loop rt cur i (l # ls) (nu0, nc0) =
                    processCSV_loop rt cur (i + 1) ls (nu0 @ [?u], nc0 @ [?ch])"
        using False wf by (simp add: processRow_new [OF None])
      from Cons.IH [OF rest, of "i + 1" "nu0 @ [?u]" "nc0 @ [?ch]"]
      obtain nu nc where r:
          "processCSV_loop rt cur (i + 1) ls (nu0 @ [?u], nc0 @ [?ch]) =
             Inr ((nu0 @ [?u]) @ nu, (nc0 @ [?ch]) @ nc)"
          "length nc = length ?rows" "distinct (map username nu)"
          "set (map username nu) =
             set (map rowName ?rows) - set (map username cur) - set (map username (nu0 @ [?u]))"
          "map cUserId nc =
             map (\<lambda>row. uId (the (findUser (rowName row) cur ((nu0 @ [?u]) @ nu)))) ?rows"
        by blast
      have name: "username ?u = rowName (trim l)"
        by (rule username_createUser)
      have unknown: "rowName (trim l) \<notin> set (map username cur)" "rowName (trim l) \<notin> set (map username nu0)"
        using None by (simp_all add: findUser_None_iff)
      have "processCSV_loop rt cur i (l # ls) (nu0, nc0) = Inr (nu0 @ (?u # nu), nc0 @ (?ch # nc))"
        using step r(1) by simp
      moreover have "length (?ch # nc) = length (filter (\<lambda>l. l \<noteq> []) (map trim (l # ls)))"
        using False r(2) by simp
      moreover have "distinct (map username (?u # nu))"
        using r(3) r(4) name by auto
      moreover have "set (map username (?u # nu)) =
             set (map rowName (filter (\<lambda>l. l \<noteq> []) (map trim (l # ls))))
               - set (map username cur) - set (map username nu0)"
        using False r(4) name unknown by auto
      moreover have "map cUserId (?ch # nc) =
             map (\<lambda>row. uId (the (findUser (rowName row) cur (nu0 @ (?u # nu)))))
               (filter (\<lambda>l. l \<noteq> []) (map trim (l # ls)))"
        using False r(5) findUser_new [OF None name, of nu]
        by (simp add: cUserId_createChannel)
      ultimately show ?thesis
        by blast
    qed
  qed
qed


lemma loop_extends:
  "processCSV_loop rt cur i ls (nu0, nc0) = Inr (nu', nc') \<Longrightarrow>
     \<exists>nu nc. nu' = nu0 @ nu \<and> nc' = nc0 @ nc"
proof (induction ls arbitrary: i nu0 nc0)
  case Nil
  then show ?case by simp
next
  case (Cons l ls)
  show ?case
  proof (cases "trim l = []")
    case True
    with Cons.prems have "processCSV_loop rt cur (i + 1) ls (nu0, nc0) = Inr (nu', nc')"
      by simp
    from Cons.IH [OF this] show ?thesis .
  next
    case False
    with Cons.prems have wf: "\<not> length (split_str (CHR '','') (trim l)) < 5"
      by (auto split: if_splits)
    obtain nu1 nc1 where p: "processRow rt cur i (split_str (CHR '','') (trim l)) (nu0, nc0) =
        (nu0 @ nu1, nc0 @ nc1)"
      by (cases "findUser (rowName (trim l)) cur nu0")
         (simp_all add: processRow_new processRow_found)
    with Cons.prems False wf
    have "processCSV_loop rt cur (i + 1) ls (nu0 @ nu1, nc0 @ nc1) = Inr (nu', nc')"
      by simp
    from Cons.IH [OF this] show ?thesis
      by auto
  qed
qed

lemma dataRows_wellformed:
  "(\<forall>row \<in> set (dataRows lines). \<not> malformed row) \<longleftrightarrow>
   (\<forall>l \<in> set (drop (startIdx lines) lines). trim l \<noteq> [] \<longrightarrow> \<not> malformed (trim l))"
  by (auto simp: dataRows_def)

lemma processRow_appends:
  "\<exists>nu1 u. processRow rt cur i parts (nu0, nc0) =
     (nu1, nc0 @ [createChannel rt i u (map trim parts)])"
  by (cases "findUser (map trim parts ! 0) cur nu0") (auto simp add: processRow_def Let_def)

lemma loop_cells:
  assumes "\<forall>l \<in> set ls. trim l \<noteq> [] \<longrightarrow> \<not> malformed (trim l)"
    and "processCSV_loop rt cur i ls (nu0, nc0) = Inr (nu', nc')"
  shows "map cName nc' =
           map cName nc0 @
           map (\<lambda>row. trim (split_str (CHR '','') row ! 3)) (filter (\<lambda>l. l \<noteq> []) (map trim ls)) \<and>
         map cIdentifier nc' =
           map cIdentifier nc0 @
           map (\<lambda>row. trim (split_str (CHR '','') row ! 4)) (filter (\<lambda>l. l \<noteq> []) (map trim ls))"
  using assms
proof (induction ls arbitrary: i nu0 nc0)
  case Nil
  then show ?case by simp
next
  case (Cons l ls)
  have rest: "\<forall>l \<in> set ls. trim l \<noteq> [] \<longrightarrow> \<not> malformed (trim l)"
    using Cons.prems(1) by simp
  show ?case
  proof (cases "trim l = []")
    case True
    with Cons.prems(2) have "processCSV_loop rt cur (i + 1) ls (nu0, nc0) = Inr (nu', nc')"
      by simp
    from Cons.IH [OF rest this] True show ?thesis
      by simp
  next
    case False
    let ?parts = "split_str (CHR '','') (trim l)"
    have wf: "\<not> length ?parts < 5"
      using False Cons.prems(1) by (simp add: malformed_def)
    obtain nu1 u where row: "processRow rt cur i ?parts (nu0, nc0) =
        (nu1, nc0 @ [createChannel rt i u (map trim ?parts)])"
      using processRow_appends by blast
    let ?ch = "createChannel rt i u (map trim ?parts)"
    have "processCSV_loop rt cur (i + 1) ls (nu1, nc0 @ [?ch]) = Inr (nu', nc')"
      using Cons.prems(2) False wf row by simp
    from Cons.IH [OF rest this]
    have "map cName nc' =
           map cName (nc0 @ [?ch]) @
           map (\<lambda>row. trim (split_str (CHR '','') row ! 3)) (filter (\<lambda>l. l \<noteq> []) (map trim ls))"
      "map cIdentifier nc' =
           map cIdentifier (nc0 @ [?ch]) @
           map (\<lambda>row. trim (split_str (CHR '','') row ! 4)) (filter (\<lambda>l. l \<noteq> []) (map trim ls))"
      by blast+
    moreover have "cName ?ch = trim (?parts ! 3)" "cIdentifier ?ch = trim (?parts ! 4)"
      using wf by (simp_all add: createChannel_def)
    ultimately show ?thesis
      using False by simp
  qed
qed

subsection \<open>Evaluating the example payloads\<close>

lemma lines_csvThirdBad:
  "payloadLines csvThirdBad =
     [''alice,pw,70,ChA,UC1'', ''bob,pw,75,ChB,tt2'', ''carol,pw'', ''dave,pw,70,ChD,UC4'',
      ''erin,pw,75,ChE,tt5'']"
  by (simp add: payloadLines_def csvThirdBad_def trim_def isWhiteSpace_def)

lemma startIdx_csvThirdBad: "startIdx (payloadLines csvThirdBad) = 0"
  unfolding lines_csvThirdBad by code_simp

lemma rows_csvSameName:
  "dataRows (payloadLines csvSameName) = [''alice,pw,70,ChA,UC1'', ''alice,pw,70,ChB,tt2'']"
  unfolding csvSameName_def by code_simp

lemma names_csvSameName:
  "map rowName [''alice,pw,70,ChA,UC1'', ''alice,pw,70,ChB,tt2''] = [''alice'', ''alice'']"
  by (simp add: rowName_def trim_def isWhiteSpace_def)

lemma usernames_initialDB: "map username (users initialDB) = [''admin'', ''test1'', ''test2'']"
  by (simp add: initialDB_def DEFAULT_USERS_def u_admin_def u_test1_def u_test2_def)

subsection \<open>The header row\<close>

lemma trim_Nil: "trim [] = []"
  by (simp add: trim_def)

lemma startIdx_blank: "startIdx ([] # ls) = 0"
  by (simp add: startIdx_def toLowerCase_def)

lemma importLines_header:
  assumes "includes_str (toLowerCase l) ''username''"
  shows "importLines rt (l # ls) db = importLines rt ([] # ls) db"
proof -
  have "startIdx (l # ls) = 1"
    using assms by (simp add: startIdx_def)
  then have "importLines rt (l # ls) db =
      (case processCSV_loop rt (users db) 1 ls ([], []) of
         Inl e \<Rightarrow> (db, Inl e)
       | Inr (newUsers, newChannels) \<Rightarrow>
           (db \<lparr> users := users db @ newUsers, channels := channels db @ newChannels \<rparr>,
            Inr (length newUsers, length newChannels)))"
    by (simp add: importLines_def)
  moreover have "importLines rt ([] # ls) db =
      (case processCSV_loop rt (users db) 1 ls ([], []) of
         Inl e \<Rightarrow> (db, Inl e)
       | Inr (newUsers, newChannels) \<Rightarrow>
           (db \<lparr> users := users db @ newUsers, channels := channels db @ newChannels \<rparr>,
            Inr (length newUsers, length newChannels)))"
    by (simp add: importLines_def startIdx_blank trim_Nil)
  ultimately show ?thesis by simp
qed

lemma importLines_first_malformed:
  assumes "\<not> includes_str (toLowerCase l) ''username''" and "trim l \<noteq> []" and "malformed (trim l)"
  shows "importLines rt (l # ls) db = (db, Inl (MalformedRow 1))"
proof -
  have "startIdx (l # ls) = 0"
    using assms(1) by (simp add: startIdx_def)
  then show ?thesis
    using assms(2,3) by (simp add: importLines_def malformed_def)
qed

lemma processRow_channel:
  "\<exists>nu u. processRow rt cur i parts ([], []) = (nu, [createChannel rt i u (map trim parts)])"
  by (cases "findUser (map trim parts ! 0) cur []") (auto simp add: processRow_def Let_def)

lemma importLines_first_row:
  assumes "\<not> includes_str (toLowerCase l) ''username''" and "trim l \<noteq> []"
    and "\<not> malformed (trim l)" and "snd (importLines rt (l # ls) db) = Inr (a, b)"
  shows "\<exists>nc. channels (fst (importLines rt (l # ls) db)) = channels db @ nc \<and> nc \<noteq> [] \<and>
           cId (hd nc) = freshChannelId rt 0 \<and>
           cName (hd nc) = trim (split_str (CHR '','') (trim l) ! 3) \<and>
           cIdentifier (hd nc) = trim (split_str (CHR '','') (trim l) ! 4)"
proof -
  let ?parts = "split_str (CHR '','') (trim l)"
  have wf: "\<not> length ?parts < 5"
    using assms(3) by (simp add: malformed_def)
  have s0: "startIdx (l # ls) = 0"
    using assms(1) by (simp add: startIdx_def)
  obtain nu1 u where row: "processRow rt (users db) 0 ?parts ([], []) =
      (nu1, [createChannel rt 0 u (map trim ?parts)])"
    using processRow_channel by blast
  let ?ch = "createChannel rt 0 u (map trim ?parts)"
  have loop: "processCSV_loop rt (users db) 0 (l # ls) ([], []) =
                processCSV_loop rt (users db) 1 ls (nu1, [?ch])"
    using assms(2) wf row by simp
  show ?thesis
  proof (cases "processCSV_loop rt (users db) 1 ls (nu1, [?ch])")
    case (Inl e)
    then have "snd (importLines rt (l # ls) db) = Inl e"
      using loop s0 by (simp add: importLines_def)
    with assms(4) show ?thesis by simp
  next
    case (Inr r)
    obtain nu' nc' where r: "r = (nu', nc')" by (cases r)
    from loop_extends [OF Inr [unfolded r]]
    obtain nc where nc: "nc' = [?ch] @ nc" by blast
    have "channels (fst (importLines rt (l # ls) db)) = channels db @ (?ch # nc)"
      using loop s0 Inr r nc by (simp add: importLines_def)
    moreover have "cName ?ch = trim (?parts ! 3)" "cIdentifier ?ch = trim (?parts ! 4)"
        "cId ?ch = freshChannelId rt 0"
      using wf by (simp_all add: createChannel_def)
    ultimately show ?thesis
      by (intro exI [of _ "?ch # nc"]) simp
  qed
qed

lemma lines_csvHeader:
  "payloadLines csvHeader =
     [''Username,Password,Ratio,Channel_Name,Channel_ID'', ''alice,pw,70,ChA,UC1'']"
  by (simp add: payloadLines_def csvHeader_def trim_def isWhiteSpace_def)

lemma header_csvHeader:
  "toLowerCase (trim (hd (split_str (CHR '','') ''Username,Password,Ratio,Channel_Name,Channel_ID''))) =
     ''username''"
  by code_simp

lemma lines_csvFans: "payloadLines csvFans = [''bob,pw,50,username fans,UC1'']"
  by (simp add: payloadLines_def csvFans_def trim_def isWhiteSpace_def)

lemma includes_csvFans: "includes_str (toLowerCase ''bob,pw,50,username fans,UC1'') ''username''"
  by code_simp

lemma first_cell_csvFans:
  "toLowerCase (trim (hd (split_str (CHR '','') ''bob,pw,50,username fans,UC1''))) = ''bob''"
  by code_simp

lemma importLines_blank: "importLines rt [[]] db = (db, Inr (0, 0))"
  by (simp add: importLines_def startIdx_blank trim_Nil)

lemma lines_csvSameName:
  "payloadLines csvSameName = [''alice,pw,70,ChA,UC1'', ''alice,pw,70,ChB,tt2'']"
  by (simp add: payloadLines_def csvSameName_def trim_def isWhiteSpace_def)

lemma no_header_csvSameName: "\<not> includes_str (toLowerCase ''alice,pw,70,ChA,UC1'') ''username''"
  by code_simp

lemma result_csvSameName: "snd (processCSV exampleRuntime csvSameName initialDB) = Inr (1, 2)"
  unfolding csvSameName_def by code_simp

lemma lines_short: "payloadLines ''carol,pw'' = [''carol,pw'']"
  by (simp add: payloadLines_def trim_def isWhiteSpace_def)

lemma no_header_short: "\<not> includes_str (toLowerCase ''carol,pw'') ''username''"
  by code_simp

text \<open>
  Claim C7, as the code has it. The first line is taken for a header whenever the line
  as a whole, in lower case, contains \<open>username\<close> anywhere; a first cell that is the
  label in any mix of case is one such case. A line taken for a header is passed over:
  the import gives what it gives with a blank first line. A first line that does not
  contain the word is read as a data row: if it is malformed the import fails at line
  1, and if it is well-formed and the import succeeds, the first channel appended to the
  store is the one built from its fourth and fifth cells.
\<close>

theorem header_by_substring:
  assumes "payloadLines csv = l # ls"
  shows "(toLowerCase (trim (hd (split_str (CHR '','') l))) = ''username'' \<longrightarrow>
            includes_str (toLowerCase l) ''username'') \<and>
         (includes_str (toLowerCase l) ''username'' \<longrightarrow>
            processCSV rt csv db = importLines rt ([] # ls) db) \<and>
         (\<not> includes_str (toLowerCase l) ''username'' \<and> trim l \<noteq> [] \<and> malformed (trim l) \<longrightarrow>
            processCSV rt csv db = (db, Inl (MalformedRow 1))) \<and>
         (\<not> includes_str (toLowerCase l) ''username'' \<and> trim l \<noteq> [] \<and> \<not> malformed (trim l) \<longrightarrow>
            (\<forall>a b. snd (processCSV rt csv db) = Inr (a, b) \<longrightarrow>
               (\<exists>nc. channels (fst (processCSV rt csv db)) = channels db @ nc \<and> nc \<noteq> [] \<and>
                  cId (hd nc) = freshChannelId rt 0 \<and>
                  cName (hd nc) = trim (split_str (CHR '','') (trim l) ! 3) \<and>
                  cIdentifier (hd nc) = trim (split_str (CHR '','') (trim l) ! 4))))"
proof -
  have p: "processCSV rt csv db = importLines rt (l # ls) db"
    by (simp add: processCSV_def assms)
  show ?thesis
    unfolding p
    using first_cell_header [of l] importLines_header [of l rt ls db]
      importLines_first_malformed [of l rt ls db] importLines_first_row [of l rt ls db]
    by blast
qed

theorem header_by_substring_witness:
  "processCSV exampleRuntime csvHeader initialDB =
     importLines exampleRuntime [[], ''alice,pw,70,ChA,UC1''] initialDB \<and>
   processCSV exampleRuntime csvFans initialDB = importLines exampleRuntime [[]] initialDB \<and>
   processCSV exampleRuntime ''carol,pw'' initialDB = (initialDB, Inl (MalformedRow 1)) \<and>
   (\<exists>nc. channels (fst (processCSV exampleRuntime csvSameName initialDB)) = channels initialDB @ nc \<and>
         nc \<noteq> [] \<and> cName (hd nc) = ''ChA'' \<and> cIdentifier (hd nc) = ''UC1'')"
proof -
  have "processCSV exampleRuntime csvHeader initialDB =
     importLines exampleRuntime [[], ''alice,pw,70,ChA,UC1''] initialDB"
    using header_by_substring [OF lines_csvHeader, of exampleRuntime initialDB] header_csvHeader
    by blast
  moreover have "processCSV exampleRuntime csvFans initialDB = importLines exampleRuntime [[]] initialDB"
    using header_by_substring [OF lines_csvFans, of exampleRuntime initialDB] includes_csvFans
    by blast
  moreover have "processCSV exampleRuntime ''carol,pw'' initialDB = (initialDB, Inl (MalformedRow 1))"
  proof -
    have "trim ''carol,pw'' \<noteq> []" "malformed (trim ''carol,pw'')"
      by (simp_all add: trim_def isWhiteSpace_def malformed_def)
    then show ?thesis
      using header_by_substring [OF lines_short, of exampleRuntime initialDB] no_header_short
      by blast
  qed
  moreover have "\<exists>nc. channels (fst (processCSV exampleRuntime csvSameName initialDB)) = channels initialDB @ nc \<and>
         nc \<noteq> [] \<and> cName (hd nc) = ''ChA'' \<and> cIdentifier (hd nc) = ''UC1''"
  proof -
    have t: "trim ''alice,pw,70,ChA,UC1'' = ''alice,pw,70,ChA,UC1''"
      by (simp add: trim_def isWhiteSpace_def)
    have c: "trim (split_str (CHR '','') ''alice,pw,70,ChA,UC1'' ! 3) = ''ChA''"
        "trim (split_str (CHR '','') ''alice,pw,70,ChA,UC1'' ! 4) = ''UC1''"
      by (simp_all add: trim_def isWhiteSpace_def)
    have "trim ''alice,pw,70,ChA,UC1'' \<noteq> []" "\<not> malformed (trim ''alice,pw,70,ChA,UC1'')"
      by (simp_all add: t malformed_def)
    then obtain nc where "channels (fst (processCSV exampleRuntime csvSameName initialDB)) = channels initialDB @ nc"
        "nc \<noteq> []" "cName (hd nc) = trim (split_str (CHR '','') (trim ''alice,pw,70,ChA,UC1'') ! 3)"
        "cIdentifier (hd nc) = trim (split_str (CHR '','') (trim ''alice,pw,70,ChA,UC1'') ! 4)"
      using header_by_substring [OF lines_csvSameName, of exampleRuntime initialDB]
        no_header_csvSameName result_csvSameName
      by blast
    then show ?thesis
      unfolding t c by blast
  qed
  ultimately show ?thesis
    by blast
qed

text \<open>
  Claim C7 as stated fails: the only line of the payload is a well-formed data row
  whose first cell is \<open>bob\<close>, not the label, and yet it is taken for a header because
  its fourth cell contains \<open>username\<close>: the import succeeds with no user and no channel.
\<close>

theorem data_row_taken_for_header:
  "payloadLines csvFans = [''bob,pw,50,username fans,UC1''] \<and>
   toLowerCase (trim (hd (split_str (CHR '','') ''bob,pw,50,username fans,UC1''))) = ''bob'' \<and>
   \<not> malformed (trim ''bob,pw,50,username fans,UC1'') \<and>
   processCSV exampleRuntime csvFans initialDB = (initialDB, Inr (0, 0))"
proof -
  have "processCSV exampleRuntime csvFans initialDB =
          importLines exampleRuntime ([] # []) initialDB"
    unfolding processCSV_def lines_csvFans
    by (rule importLines_header [OF includes_csvFans])
  then have "processCSV exampleRuntime csvFans initialDB = (initialDB, Inr (0, 0))"
    by (simp add: importLines_blank)
  moreover have "\<not> malformed (trim ''bob,pw,50,username fans,UC1'')"
    by (simp add: malformed_def trim_def isWhiteSpace_def)
  ultimately show ?thesis
    using lines_csvFans first_cell_csvFans by blast
qed

subsection \<open>A malformed row\<close>

text \<open>
  Claim C5, as the code has it. Lines are numbered from 1 over the lines of the trimmed
  payload, so blank lines before the first row are not counted. The first line is no
  data row when the header test takes it, that is, when it contains \<open>username\<close>
  anywhere. When some line from \<open>startIdx\<close> on, at index \<open>n\<close>, is not blank and has
  fewer than five comma-separated fields, the import fails with \<open>MalformedRow (m + 1)\<close>,
  where \<open>m \<le> n\<close> is the index of the first such line, and the store it returns is the
  store it was given: no user and no channel is created or changed.
\<close>

theorem malformed_row_aborts:
  assumes "startIdx (payloadLines csv) \<le> n" and "n < length (payloadLines csv)"
    and "trim (payloadLines csv ! n) \<noteq> []" and "malformed (trim (payloadLines csv ! n))"
  shows "\<exists>m \<le> n. startIdx (payloadLines csv) \<le> m \<and>
           trim (payloadLines csv ! m) \<noteq> [] \<and> malformed (trim (payloadLines csv ! m)) \<and>
           (\<forall>j. startIdx (payloadLines csv) \<le> j \<and> j < m \<and> trim (payloadLines csv ! j) \<noteq> []
                \<longrightarrow> \<not> malformed (trim (payloadLines csv ! j))) \<and>
           processCSV rt csv db = (db, Inl (MalformedRow (m + 1)))"
proof -
  define lines where "lines = payloadLines csv"
  define s where "s = startIdx lines"
  define ls where "ls = drop s lines"
  have sn: "s \<le> n" "n < length lines"
    using assms(1,2) by (simp_all add: s_def lines_def)
  have nth: "ls ! j = lines ! (s + j)" if "s + j < length lines" for j
    using that by (simp add: ls_def)
  have len: "length ls = length lines - s"
    by (simp add: ls_def)
  have at_n: "ls ! (n - s) = lines ! n"
    using sn nth [of "n - s"] by simp
  have "ls ! (n - s) \<in> set ls"
    using sn len by (intro nth_mem) simp
  then have "\<exists>l \<in> set ls. trim l \<noteq> [] \<and> malformed (trim l)"
    using assms(3,4) at_n by (auto simp: lines_def)
  from loop_malformed [OF this, of rt "users db" s "([], [])"]
  obtain k where k: "k < length ls"
      "processCSV_loop rt (users db) s ls ([], []) = Inl (MalformedRow (s + k + 1))"
      "trim (ls ! k) \<noteq> []" "malformed (trim (ls ! k))"
      "\<forall>j < k. trim (ls ! j) \<noteq> [] \<longrightarrow> \<not> malformed (trim (ls ! j))"
    by blast
  have kk: "s + k < length lines"
    using k(1) len by simp
  have "\<not> n - s < k"
    using k(5) assms(3,4) at_n by (auto simp: lines_def)
  then have le: "s + k \<le> n"
    using sn by simp
  have first: "\<not> malformed (trim (lines ! j))" if "s \<le> j" "j < s + k" "trim (lines ! j) \<noteq> []" for j
  proof -
    have "j - s < k" using that by simp
    moreover have "ls ! (j - s) = lines ! j"
      using that kk nth [of "j - s"] by simp
    ultimately show ?thesis
      using k(5) that(3) by auto
  qed
  have "processCSV rt csv db = (db, Inl (MalformedRow (s + k + 1)))"
    using k(2) by (simp add: processCSV_def importLines_def lines_def s_def ls_def)
  then show ?thesis
    using le k(3,4) first nth [OF kk]
    by (intro exI [of _ "s + k"]) (auto simp: lines_def s_def)
qed

theorem malformed_row_aborts_witness:
  "startIdx (payloadLines csvThirdBad) \<le> 2 \<and> 2 < length (payloadLines csvThirdBad) \<and>
   trim (payloadLines csvThirdBad ! 2) = ''carol,pw'' \<and> malformed ''carol,pw'' \<and>
   processCSV exampleRuntime csvThirdBad initialDB = (initialDB, Inl (MalformedRow 3))"
proof -
  have h1: "startIdx (payloadLines csvThirdBad) \<le> 2"
    by (simp add: startIdx_csvThirdBad)
  have h2: "2 < length (payloadLines csvThirdBad)"
    by (simp add: lines_csvThirdBad)
  have row: "trim (payloadLines csvThirdBad ! 2) = ''carol,pw''"
    by (simp add: lines_csvThirdBad trim_def isWhiteSpace_def)
  have bad: "malformed ''carol,pw''"
    by (simp add: malformed_def)
  have h3: "trim (payloadLines csvThirdBad ! 2) \<noteq> []"
    by (simp add: row)
  have h4: "malformed (trim (payloadLines csvThirdBad ! 2))"
    by (simp add: row bad)
  have good: "\<not> malformed (trim (payloadLines csvThirdBad ! 0))"
      "\<not> malformed (trim (payloadLines csvThirdBad ! 1))"
    by (simp_all add: lines_csvThirdBad trim_def isWhiteSpace_def malformed_def)
  from malformed_row_aborts [OF h1 h2 h3 h4, of exampleRuntime initialDB]
  obtain m where m: "m \<le> 2" "malformed (trim (payloadLines csvThirdBad ! m))"
      "processCSV exampleRuntime csvThirdBad initialDB = (initialDB, Inl (MalformedRow (m + 1)))"
    by blast
  have "m \<noteq> 0"
  proof
    assume "m = 0"
    with m(2) good(1) show False by simp
  qed
  moreover have "m \<noteq> 1"
  proof
    assume "m = 1"
    with m(2) good(2) show False by simp
  qed
  ultimately have "m = 2"
    using m(1) by simp
  with m(3) have "processCSV exampleRuntime csvThirdBad initialDB = (initialDB, Inl (MalformedRow 3))"
    by simp
  with h1 h2 row bad show ?thesis by blast
qed

text \<open>
  Claim C5 as stated fails. The first row \<open>bobusername,pw\<close> has two fields and its
  first cell is not the column label, yet it is taken for a header: the import succeeds
  and stores one user and one channel. And a payload of two blank lines and the row
  \<open>carol,pw\<close> fails with line 1, the row being on line 3 of the payload.
\<close>

theorem malformed_first_row_skipped:
  "payloadLines csvHeaderLike = [''bobusername,pw'', ''carol,pw,75,ChC,UC3''] \<and>
   toLowerCase (trim (hd (split_str (CHR '','') ''bobusername,pw''))) = ''bobusername'' \<and>
   malformed (trim ''bobusername,pw'') \<and>
   snd (processCSV exampleRuntime csvHeaderLike initialDB) = Inr (1, 1) \<and>
   map username (users (fst (processCSV exampleRuntime csvHeaderLike initialDB))) =
     [''admin'', ''test1'', ''test2'', ''carol''] \<and>
   map cName (channels (fst (processCSV exampleRuntime csvHeaderLike initialDB))) = [''ChC''] \<and>
   split_str (CHR 0x0A) csvLeadingBlank = [[], [], ''carol,pw''] \<and>
   processCSV exampleRuntime csvLeadingBlank initialDB = (initialDB, Inl (MalformedRow 1))"
proof -
  have 1: "payloadLines csvHeaderLike = [''bobusername,pw'', ''carol,pw,75,ChC,UC3'']"
    by (simp add: payloadLines_def csvHeaderLike_def trim_def isWhiteSpace_def)
  have 2: "toLowerCase (trim (hd (split_str (CHR '','') ''bobusername,pw''))) = ''bobusername''"
    by code_simp
  have 3: "malformed (trim ''bobusername,pw'')"
    by (simp add: malformed_def trim_def isWhiteSpace_def)
  have 4: "snd (processCSV exampleRuntime csvHeaderLike initialDB) = Inr (1, 1)"
    unfolding csvHeaderLike_def by code_simp
  have 5: "map username (users (fst (processCSV exampleRuntime csvHeaderLike initialDB))) =
     [''admin'', ''test1'', ''test2'', ''carol'']"
    unfolding csvHeaderLike_def by code_simp
  have 6: "map cName (channels (fst (processCSV exampleRuntime csvHeaderLike initialDB))) = [''ChC'']"
    unfolding csvHeaderLike_def by code_simp
  have 7: "split_str (CHR 0x0A) csvLeadingBlank = [[], [], ''carol,pw'']"
    by (simp add: csvLeadingBlank_def)
  have l: "payloadLines csvLeadingBlank = [''carol,pw'']"
    by (simp add: payloadLines_def csvLeadingBlank_def trim_def isWhiteSpace_def)
  have n: "\<not> includes_str (toLowerCase ''carol,pw'') ''username''"
    by code_simp
  have 8: "processCSV exampleRuntime csvLeadingBlank initialDB = (initialDB, Inl (MalformedRow 1))"
    unfolding processCSV_def l
    by (rule importLines_first_malformed [OF n]) (simp_all add: trim_def isWhiteSpace_def malformed_def)
  from 1 2 3 4 5 6 7 8 show ?thesis by blast
qed

subsection \<open>Resolving the user of a row\<close>

text \<open>
  Claim C6, as the code has it. The data rows are the lines from \<open>startIdx\<close> on that are
  not blank: a first line containing \<open>username\<close> anywhere is not among them. When every
  data row is well-formed the import succeeds and reports the numbers of users and
  channels it has appended to the store. There is one new channel per data row, with
  the name and identifier of the row's fourth and fifth cells. The new users have
  distinct names, namely the names of the data rows that no stored user bears, so their
  number is the number of such names: two data rows naming the same new user give one
  user and two channels. The channel of each row belongs to the first stored user of the
  row's name, or else to the new user of that name.
\<close>

theorem import_resolves_by_name:
  assumes "\<forall>row \<in> set (dataRows (payloadLines csv)). \<not> malformed row"
  shows "\<exists>nu nc.
           processCSV rt csv db =
             (db \<lparr> users := users db @ nu, channels := channels db @ nc \<rparr>,
              Inr (length nu, length nc)) \<and>
           length nc = length (dataRows (payloadLines csv)) \<and>
           distinct (map username nu) \<and>
           set (map username nu) =
             set (map rowName (dataRows (payloadLines csv))) - set (map username (users db)) \<and>
           length nu =
             card (set (map rowName (dataRows (payloadLines csv))) - set (map username (users db))) \<and>
           map cUserId nc =
             map (\<lambda>row. uId (the (case find (\<lambda>u. username u = rowName row) (users db) of
                                      Some u \<Rightarrow> Some u
                                    | None \<Rightarrow> find (\<lambda>u. username u = rowName row) nu)))
               (dataRows (payloadLines csv)) \<and>
           map cName nc =
             map (\<lambda>row. trim (split_str (CHR '','') row ! 3)) (dataRows (payloadLines csv)) \<and>
           map cIdentifier nc =
             map (\<lambda>row. trim (split_str (CHR '','') row ! 4)) (dataRows (payloadLines csv))"
proof -
  define lines where "lines = payloadLines csv"
  define ls where "ls = drop (startIdx lines) lines"
  have rows: "dataRows lines = filter (\<lambda>l. l \<noteq> []) (map trim ls)"
    by (simp add: dataRows_def ls_def)
  have wf: "\<forall>l \<in> set ls. trim l \<noteq> [] \<longrightarrow> \<not> malformed (trim l)"
    using assms by (simp add: dataRows_wellformed lines_def ls_def)
  from loop_success [OF wf, of rt "users db" "startIdx lines" "[]" "[]"]
  obtain nu nc where r:
      "processCSV_loop rt (users db) (startIdx lines) ls ([], []) = Inr (nu, nc)"
      "length nc = length (dataRows lines)" "distinct (map username nu)"
      "set (map username nu) = set (map rowName (dataRows lines)) - set (map username (users db))"
      "map cUserId nc = map (\<lambda>row. uId (the (findUser (rowName row) (users db) nu))) (dataRows lines)"
    unfolding rows by auto
  have res: "processCSV rt csv db =
          (db \<lparr> users := users db @ nu, channels := channels db @ nc \<rparr>, Inr (length nu, length nc))"
    using r(1) by (simp add: processCSV_def importLines_def lines_def ls_def)
  have card: "length nu =
      card (set (map rowName (dataRows lines)) - set (map username (users db)))"
    using distinct_card [OF r(3)] r(4) by simp
  have owner: "map cUserId nc =
             map (\<lambda>row. uId (the (case find (\<lambda>u. username u = rowName row) (users db) of
                                      Some u \<Rightarrow> Some u
                                    | None \<Rightarrow> find (\<lambda>u. username u = rowName row) nu)))
               (dataRows lines)"
    using r(5) by (simp add: findUser_def)
  have cells: "map cName nc = map (\<lambda>row. trim (split_str (CHR '','') row ! 3)) (dataRows lines)"
      "map cIdentifier nc = map (\<lambda>row. trim (split_str (CHR '','') row ! 4)) (dataRows lines)"
    using loop_cells [OF wf r(1)] unfolding rows by simp_all
  show ?thesis
    using res r(2-4) card owner cells unfolding lines_def by blast
qed

theorem import_resolves_by_name_witness:
  "\<exists>nu nc. processCSV exampleRuntime csvSameName initialDB =
             (initialDB \<lparr> users := users initialDB @ nu, channels := channels initialDB @ nc \<rparr>,
              Inr (1, 2)) \<and>
           map username nu = [''alice''] \<and> length nc = 2"
proof -
  have wf: "\<forall>row \<in> set (dataRows (payloadLines csvSameName)). \<not> malformed row"
    by (simp add: rows_csvSameName malformed_def)
  have new: "set (map rowName (dataRows (payloadLines csvSameName))) - set (map username (users initialDB)) =
      {''alice''}"
    unfolding rows_csvSameName names_csvSameName usernames_initialDB by auto
  from import_resolves_by_name [OF wf, of exampleRuntime initialDB]
  obtain nu nc where r:
      "processCSV exampleRuntime csvSameName initialDB =
         (initialDB \<lparr> users := users initialDB @ nu, channels := channels initialDB @ nc \<rparr>,
          Inr (length nu, length nc))"
      "length nc = length (dataRows (payloadLines csvSameName))"
      "set (map username nu) = {''alice''}" "length nu = card {''alice''}"
    unfolding new by blast
  have ln: "length nu = 1"
    using r(4) by simp
  then obtain x where x: "nu = [x]"
    by (cases nu) auto
  have names: "map username nu = [''alice'']"
    using r(3) unfolding x by simp
  have lc: "length nc = 2"
    using r(2) by (simp add: rows_csvSameName)
  have res: "processCSV exampleRuntime csvSameName initialDB =
         (initialDB \<lparr> users := users initialDB @ nu, channels := channels initialDB @ nc \<rparr>,
          Inr (1, 2))"
    using r(1) by (simp only: ln lc)
  show ?thesis
    by (intro exI [of _ nu] exI [of _ nc] conjI) (rule res names lc)+
qed

text \<open>
  Claim C6 as stated fails: two well-formed rows name the same new user
  \<open>username_bob\<close>; the first, being the first line and containing \<open>username\<close>, is taken
  for a header, and the import stores one user and one channel, not two channels.
\<close>

theorem header_like_name_loses_row:
  "payloadLines csvUsernameBob = [''username_bob,pw,70,ChA,UC1'', ''username_bob,pw,70,ChB,tt2''] \<and>
   rowName ''username_bob,pw,70,ChA,UC1'' = ''username_bob'' \<and>
   rowName ''username_bob,pw,70,ChB,tt2'' = ''username_bob'' \<and>
   \<not> malformed ''username_bob,pw,70,ChA,UC1'' \<and> \<not> malformed ''username_bob,pw,70,ChB,tt2'' \<and>
   snd (processCSV exampleRuntime csvUsernameBob initialDB) = Inr (1, 1) \<and>
   map username (users (fst (processCSV exampleRuntime csvUsernameBob initialDB))) =
     [''admin'', ''test1'', ''test2'', ''username_bob''] \<and>
   map cName (channels (fst (processCSV exampleRuntime csvUsernameBob initialDB))) = [''ChB'']"
proof -
  have 1: "payloadLines csvUsernameBob =
      [''username_bob,pw,70,ChA,UC1'', ''username_bob,pw,70,ChB,tt2'']"
    by (simp add: payloadLines_def csvUsernameBob_def trim_def isWhiteSpace_def)
  have 2: "rowName ''username_bob,pw,70,ChA,UC1'' = ''username_bob''"
      "rowName ''username_bob,pw,70,ChB,tt2'' = ''username_bob''"
    by (simp_all add: rowName_def trim_def isWhiteSpace_def)
  have 3: "\<not> malformed ''username_bob,pw,70,ChA,UC1''" "\<not> malformed ''username_bob,pw,70,ChB,tt2''"
    by (simp_all add: malformed_def)
  have 4: "snd (processCSV exampleRuntime csvUsernameBob initialDB) = Inr (1, 1)"
    unfolding csvUsernameBob_def by code_simp
  have 5: "map username (users (fst (processCSV exampleRuntime csvUsernameBob initialDB))) =
     [''admin'', ''test1'', ''test2'', ''username_bob'']"
    unfolding csvUsernameBob_def by code_simp
  have 6: "map cName (channels (fst (processCSV exampleRuntime csvUsernameBob initialDB))) = [''ChB'']"
    unfolding csvUsernameBob_def by code_simp
  from 1 2 3 4 5 6 show ?thesis by blast
qed

end
